theory Spec2Isabelle
  imports Main
begin

section \<open>Cells, boards and JavaScript array access\<close>

text \<open>
  A square of the board holds \<open>null\<close>, the string \<open>"X"\<close> or the string \<open>"O"\<close>.
  Reading an array past its end, reading a hole, or reading a property that does not
  exist yields \<open>undefined\<close>, so the values a read can produce are the four below.
\<close>

datatype cell = Null | MarkX | MarkO | Undefined

text \<open>JavaScript truthiness of a cell value: only the two non-empty strings.\<close>

fun truthy :: "cell \<Rightarrow> bool" where
  "truthy MarkX = True"
| "truthy MarkO = True"
| "truthy Null = False"
| "truthy Undefined = False"

text \<open>How a template literal prints a cell value.\<close>

fun to_string :: "cell \<Rightarrow> string" where
  "to_string MarkX = ''X''"
| "to_string MarkO = ''O''"
| "to_string Null = ''null''"
| "to_string Undefined = ''undefined''"

text \<open>
  A board is a JavaScript array object. Besides its elements (a hole is an element that
  reads as \<open>undefined\<close>) it can carry ordinary properties: an integer key is an array
  index only from \<open>0\<close> to \<open>2 ^ 32 - 2\<close>, and an assignment under any other integer key
  creates a property and leaves the elements and the length alone. Cell indices are
  integers (a JavaScript number represents every integer up to \<open>2 ^ 53\<close> in magnitude
  exactly). A JavaScript array has at most \<open>2 ^ 32 - 1\<close> elements; a longer list
  stands for no array, and the read and the write below treat every position of such
  a list as an element.
\<close>

record js_array =
  elems :: "cell list"
  props :: "(int \<times> cell) list"

text \<open>A fresh array with the given elements and no other property.\<close>

definition array :: "cell list \<Rightarrow> js_array" where
  "array xs = \<lparr>elems = xs, props = []\<rparr>"

text \<open>\<open>squares.slice()\<close> copies the elements, holes included, and nothing else.\<close>

definition slice :: "js_array \<Rightarrow> js_array" where
  "slice squares = array (elems squares)"

definition is_index :: "int \<Rightarrow> bool" where
  "is_index k = (0 \<le> k \<and> k \<le> 2 ^ 32 - 2)"

fun set_prop :: "int \<Rightarrow> cell \<Rightarrow> (int \<times> cell) list \<Rightarrow> (int \<times> cell) list" where
  "set_prop k v [] = [(k, v)]"
| "set_prop k v (p # ps) = (if fst p = k then (k, v) # ps else p # set_prop k v ps)"

text \<open>
  \<open>squares[k]\<close>: an element when \<open>k\<close> lies inside the array, \<open>undefined\<close> for any
  other array index, and otherwise the property stored under \<open>k\<close>, if there is one.
\<close>

definition at :: "js_array \<Rightarrow> int \<Rightarrow> cell" where
  "at squares k =
     (if 0 \<le> k \<and> nat k < length (elems squares) then elems squares ! nat k
      else if is_index k then Undefined
      else (case map_of (props squares) k of None \<Rightarrow> Undefined | Some v \<Rightarrow> v))"

text \<open>
  \<open>nextSquares[k] = v\<close>: inside the array the element is replaced; at an array index
  past the end the array grows to length \<open>k + 1\<close>, the cells in between reading as
  \<open>undefined\<close>; under any other key a property is set and the elements stay as they
  are.
\<close>

definition put :: "js_array \<Rightarrow> int \<Rightarrow> cell \<Rightarrow> js_array" where
  "put squares k v =
     (if 0 \<le> k \<and> nat k < length (elems squares)
      then squares\<lparr>elems := (elems squares)[nat k := v]\<rparr>
      else if is_index k
      then squares\<lparr>elems := elems squares
                            @ replicate (nat k - length (elems squares)) Undefined @ [v]\<rparr>
      else squares\<lparr>props := set_prop k v (props squares)\<rparr>)"

section \<open>generateWinningLines\<close>

text \<open>
  Each \<open>for\<close> loop of the source is a recursive function over its counter, with the
  array it pushes to as accumulator.
\<close>

function row_loop :: "nat \<Rightarrow> nat \<Rightarrow> nat \<Rightarrow> nat list \<Rightarrow> nat list" where
  "row_loop N r c row = (if c < N then row_loop N r (c + 1) (row @ [r * N + c]) else row)"
  by pat_completeness auto
termination
  by (relation "measure (\<lambda>(N, r, c, row). N - c)") auto

function rows_loop :: "nat \<Rightarrow> nat \<Rightarrow> nat list list \<Rightarrow> nat list list" where
  "rows_loop N r lines =
     (if r < N then rows_loop N (r + 1) (lines @ [row_loop N r 0 []]) else lines)"
  by pat_completeness auto
termination
  by (relation "measure (\<lambda>(N, r, lines). N - r)") auto

function col_loop :: "nat \<Rightarrow> nat \<Rightarrow> nat \<Rightarrow> nat list \<Rightarrow> nat list" where
  "col_loop N c r col = (if r < N then col_loop N c (r + 1) (col @ [r * N + c]) else col)"
  by pat_completeness auto
termination
  by (relation "measure (\<lambda>(N, c, r, col). N - r)") auto

function cols_loop :: "nat \<Rightarrow> nat \<Rightarrow> nat list list \<Rightarrow> nat list list" where
  "cols_loop N c lines =
     (if c < N then cols_loop N (c + 1) (lines @ [col_loop N c 0 []]) else lines)"
  by pat_completeness auto
termination
  by (relation "measure (\<lambda>(N, c, lines). N - c)") auto

function diag1_loop :: "nat \<Rightarrow> nat \<Rightarrow> nat list \<Rightarrow> nat list" where
  "diag1_loop N i diag1 = (if i < N then diag1_loop N (i + 1) (diag1 @ [i * N + i]) else diag1)"
  by pat_completeness auto
termination
  by (relation "measure (\<lambda>(N, i, diag1). N - i)") auto

function diag2_loop :: "nat \<Rightarrow> nat \<Rightarrow> nat list \<Rightarrow> nat list" where
  "diag2_loop N i diag2 =
     (if i < N then diag2_loop N (i + 1) (diag2 @ [i * N + (N - 1 - i)]) else diag2)"
  by pat_completeness auto
termination
  by (relation "measure (\<lambda>(N, i, diag2). N - i)") auto

declare row_loop.simps [simp del] rows_loop.simps [simp del]
  col_loop.simps [simp del] cols_loop.simps [simp del]
  diag1_loop.simps [simp del] diag2_loop.simps [simp del]

definition generateWinningLines :: "nat \<Rightarrow> nat list list" where
  "generateWinningLines N =
     (let lines = rows_loop N 0 [];
          lines = cols_loop N 0 lines;
          lines = lines @ [diag1_loop N 0 []];
          lines = lines @ [diag2_loop N 0 []]
      in lines)"

section \<open>calculateWinner\<close>

record winnerInfo =
  player :: cell
  line :: "nat list"

text \<open>
  The \<open>for (let line of lines)\<close> loop with its early return. \<open>line[0]\<close> of an empty
  line is \<open>undefined\<close>, and \<open>squares[undefined]\<close> is \<open>undefined\<close>, which is falsy:
  the loop moves on.
\<close>

fun scan_lines :: "js_array \<Rightarrow> nat list list \<Rightarrow> winnerInfo option" where
  "scan_lines squares [] = None"
| "scan_lines squares (ln # rest) =
     (case ln of
        [] \<Rightarrow> scan_lines squares rest
      | first # _ \<Rightarrow>
          if truthy (at squares (int first))
             \<and> list_all (\<lambda>idx. at squares (int idx) = at squares (int first)) ln
          then Some \<lparr>player = at squares (int first), line = ln\<rparr>
          else scan_lines squares rest)"

text \<open>The argument is \<open>None\<close> when the caller passes \<open>undefined\<close>.\<close>

definition calculateWinner :: "js_array option \<Rightarrow> nat \<Rightarrow> winnerInfo option" where
  "calculateWinner squares N =
     (case squares of
        None \<Rightarrow> None
      | Some sq \<Rightarrow> scan_lines sq (generateWinningLines N))"

section \<open>The App component's state and handlers\<close>

text \<open>
  The state of \<open>App\<close>: one field for each \<open>useState\<close>. The board size starts as 3
  and the menu sets it to 3 or to 5, so that \<open>boardSize * boardSize\<close> stays far below the
  largest array length and \<open>Array(boardSize * boardSize)\<close> does not fail.
\<close>

datatype screen = Menu | Game

record app =
  screen :: screen
  boardSize :: nat
  history :: "js_array list"
  currentMove :: nat
  scoreX :: nat
  scoreO :: nat

text \<open>The state of the first render: the \<open>useState\<close> initial values.\<close>

definition initial :: app where
  "initial = \<lparr>screen = Menu, boardSize = 3, history = [array (replicate (3 * 3) Null)],
              currentMove = 0, scoreX = 0, scoreO = 0\<rparr>"

definition xIsNext :: "app \<Rightarrow> bool" where
  "xIsNext s = (currentMove s mod 2 = 0)"

text \<open>\<open>history[currentMove]\<close>, which is \<open>undefined\<close> (here \<open>None\<close>) out of range.\<close>

definition currentSquares :: "app \<Rightarrow> js_array option" where
  "currentSquares s =
     (if currentMove s < length (history s) then Some (history s ! currentMove s) else None)"

definition setBoardSize :: "app \<Rightarrow> nat \<Rightarrow> app" where
  "setBoardSize s n = s\<lparr>boardSize := n\<rparr>"

definition handleStart :: "app \<Rightarrow> app" where
  "handleStart s =
     s\<lparr>history := [array (replicate (boardSize s * boardSize s) Null)],
       currentMove := 0,
       screen := Game\<rparr>"

definition handlePlay :: "app \<Rightarrow> js_array \<Rightarrow> app" where
  "handlePlay s nextSquares =
     (let nextHistory = take (currentMove s + 1) (history s) @ [nextSquares];
          s1 = s\<lparr>history := nextHistory, currentMove := length nextHistory - 1\<rparr>
      in case calculateWinner (Some nextSquares) (boardSize s) of
           None \<Rightarrow> s1
         | Some winnerInfo \<Rightarrow>
             if player winnerInfo = MarkX then s1\<lparr>scoreX := scoreX s1 + 1\<rparr>
             else s1\<lparr>scoreO := scoreO s1 + 1\<rparr>)"

text \<open>
  Move indices are natural numbers: \<open>jumpTo\<close> is called with positions of
  \<open>history.map\<close>.
\<close>

definition jumpTo :: "app \<Rightarrow> nat \<Rightarrow> app" where
  "jumpTo s move = s\<lparr>currentMove := move\<rparr>"

definition restartGame :: "app \<Rightarrow> app" where
  "restartGame s =
     s\<lparr>history := [array (replicate (boardSize s * boardSize s) Null)],
       currentMove := 0\<rparr>"

section \<open>The GameScreen component\<close>

datatype js_error = TypeError

text \<open>
  \<open>GameScreen\<close> receives \<open>squares = history[currentMove]\<close>. When that is
  \<open>undefined\<close>, \<open>calculateWinner\<close> returns \<open>null\<close> and the next property read on
  \<open>squares\<close> throws a \<open>TypeError\<close>.
\<close>

definition status :: "app \<Rightarrow> js_error + string" where
  "status s =
     (case calculateWinner (currentSquares s) (boardSize s) of
        Some winnerInfo \<Rightarrow> Inr (''Winner: '' @ to_string (player winnerInfo))
      | None \<Rightarrow>
          (case currentSquares s of
             None \<Rightarrow> Inl TypeError
           | Some squares \<Rightarrow>
               if list_all (\<lambda>val. val \<noteq> Null) (elems squares) then Inr ''Draw!''
               else Inr (''Next: '' @ (if xIsNext s then ''X'' else ''O''))))"

definition handleClick :: "app \<Rightarrow> int \<Rightarrow> js_error + app" where
  "handleClick s i =
     (case calculateWinner (currentSquares s) (boardSize s) of
        Some winnerInfo \<Rightarrow> Inr s
      | None \<Rightarrow>
          (case currentSquares s of
             None \<Rightarrow> Inl TypeError
           | Some squares \<Rightarrow>
               if truthy (at squares i) then Inr s
               else Inr (handlePlay s
                          (put (slice squares) i (if xIsNext s then MarkX else MarkO)))))"

section \<open>A sequence of clicks\<close>

text \<open>
  Click events are handled one at a time, each on the state the previous one left; an
  exception ends the sequence.
\<close>

fun clicks :: "app \<Rightarrow> int list \<Rightarrow> js_error + app" where
  "clicks s [] = Inr s"
| "clicks s (i # rest) = (case handleClick s i of Inl e \<Rightarrow> Inl e | Inr s' \<Rightarrow> clicks s' rest)"

section \<open>Specification-side definitions\<close>

text \<open>
  The definitions of this section follow the wording of the specification, not the
  source. They are what the model of the source is compared with.

  The candidate lines of an \<open>N \<times> N\<close> grid: row \<open>r\<close> is \<open>r * N + c\<close> for
  \<open>c = 0, \<dots>, N - 1\<close>, column \<open>c\<close> is \<open>r * N + c\<close> for \<open>r = 0, \<dots>, N - 1\<close>,
  the main diagonal is \<open>i * N + i\<close> and the anti-diagonal is \<open>i * N + (N - 1 - i)\<close>;
  they are enumerated rows first, then columns, then the two diagonals.
\<close>

definition spec_row :: "nat \<Rightarrow> nat \<Rightarrow> nat list" where
  "spec_row N r = map (\<lambda>c. r * N + c) [0..<N]"

definition spec_column :: "nat \<Rightarrow> nat \<Rightarrow> nat list" where
  "spec_column N c = map (\<lambda>r. r * N + c) [0..<N]"

definition spec_main_diagonal :: "nat \<Rightarrow> nat list" where
  "spec_main_diagonal N = map (\<lambda>i. i * N + i) [0..<N]"

definition spec_anti_diagonal :: "nat \<Rightarrow> nat list" where
  "spec_anti_diagonal N = map (\<lambda>i. i * N + (N - 1 - i)) [0..<N]"

definition spec_lines :: "nat \<Rightarrow> nat list list" where
  "spec_lines N =
     map (spec_row N) [0..<N] @ map (spec_column N) [0..<N]
       @ [spec_main_diagonal N, spec_anti_diagonal N]"

text \<open>
  A line is complete on a board when its first cell holds a mark and every cell of the
  line holds the identical value.
\<close>

definition complete_line :: "js_array \<Rightarrow> nat list \<Rightarrow> bool" where
  "complete_line squares ln =
     (ln \<noteq> [] \<and> at squares (int (hd ln)) \<in> {MarkX, MarkO}
      \<and> (\<forall>idx \<in> set ln. at squares (int idx) = at squares (int (hd ln))))"

text \<open>
  The player whose turn it is, derived from the parity of \<open>currentMove\<close>.
\<close>

definition mover :: "app \<Rightarrow> cell" where
  "mover s = (if even (currentMove s) then MarkX else MarkO)"

text \<open>
  A legal play: there is an active board, it has no winner and is not full, the cell
  index lies inside it and the target cell is empty.
\<close>

definition legal_play :: "app \<Rightarrow> int \<Rightarrow> bool" where
  "legal_play s i =
     (case currentSquares s of
        None \<Rightarrow> False
      | Some squares \<Rightarrow>
          calculateWinner (Some squares) (boardSize s) = None
          \<and> \<not> list_all (\<lambda>val. val \<noteq> Null) (elems squares)
          \<and> 0 \<le> i \<and> i < int (length (elems squares))
          \<and> elems squares ! nat i = Null)"

text \<open>
  The states the interface can reach from the first render. The board size is chosen
  and the game started on the menu screen; clicks, jumps and restarts happen on the game
  screen. Indices are left unconstrained here, which only enlarges the set.
\<close>

inductive reachable :: "app \<Rightarrow> bool" where
  init: "reachable initial"
| size: "reachable s \<Longrightarrow> screen s = Menu \<Longrightarrow> reachable (setBoardSize s n)"
| start: "reachable s \<Longrightarrow> screen s = Menu \<Longrightarrow> reachable (handleStart s)"
| click: "reachable s \<Longrightarrow> screen s = Game \<Longrightarrow> handleClick s i = Inr s' \<Longrightarrow> reachable s'"
| jump: "reachable s \<Longrightarrow> screen s = Game \<Longrightarrow> reachable (jumpTo s move)"
| restart: "reachable s \<Longrightarrow> screen s = Game \<Longrightarrow> reachable (restartGame s)"

section \<open>Example states\<close>

text \<open>
  A fresh 3 by 3 game; the games after the moves 0, 4 and 0, 4, 1, 5 and
  0, 4, 1, 5, 2 (X completes the top row); the game after the moves 0, 4 and a click at
  index -1, whose last board carries the mark as a property; the game after the moves
  0, 3, 1, 4, 8, in which O completes the middle row by playing 5; a drawn game; and a
  board on which the top row and the left column are complete at once.
\<close>

definition game1 :: app where
  "game1 = \<lparr>screen = Game, boardSize = 3,
     history = [array [Null, Null, Null, Null, Null, Null, Null, Null, Null]],
     currentMove = 0, scoreX = 0, scoreO = 0\<rparr>"

definition game3 :: app where
  "game3 = \<lparr>screen = Game, boardSize = 3,
     history = [array [Null, Null, Null, Null, Null, Null, Null, Null, Null],
                array [MarkX, Null, Null, Null, Null, Null, Null, Null, Null],
                array [MarkX, Null, Null, Null, MarkO, Null, Null, Null, Null]],
     currentMove = 2, scoreX = 0, scoreO = 0\<rparr>"

definition game4p :: app where
  "game4p = \<lparr>screen = Game, boardSize = 3,
     history = [array [Null, Null, Null, Null, Null, Null, Null, Null, Null],
                array [MarkX, Null, Null, Null, Null, Null, Null, Null, Null],
                array [MarkX, Null, Null, Null, MarkO, Null, Null, Null, Null],
                \<lparr>elems = [MarkX, Null, Null, Null, MarkO, Null, Null, Null, Null],
                 props = [(- 1, MarkX)]\<rparr>],
     currentMove = 3, scoreX = 0, scoreO = 0\<rparr>"

definition game5 :: app where
  "game5 = \<lparr>screen = Game, boardSize = 3,
     history = [array [Null, Null, Null, Null, Null, Null, Null, Null, Null],
                array [MarkX, Null, Null, Null, Null, Null, Null, Null, Null],
                array [MarkX, Null, Null, Null, MarkO, Null, Null, Null, Null],
                array [MarkX, MarkX, Null, Null, MarkO, Null, Null, Null, Null],
                array [MarkX, MarkX, Null, Null, MarkO, MarkO, Null, Null, Null]],
     currentMove = 4, scoreX = 0, scoreO = 0\<rparr>"

definition game5o :: app where
  "game5o = \<lparr>screen = Game, boardSize = 3,
     history = [array [Null, Null, Null, Null, Null, Null, Null, Null, Null],
                array [MarkX, Null, Null, Null, Null, Null, Null, Null, Null],
                array [MarkX, Null, Null, MarkO, Null, Null, Null, Null, Null],
                array [MarkX, MarkX, Null, MarkO, Null, Null, Null, Null, Null],
                array [MarkX, MarkX, Null, MarkO, MarkO, Null, Null, Null, Null],
                array [MarkX, MarkX, Null, MarkO, MarkO, Null, Null, Null, MarkX]],
     currentMove = 5, scoreX = 0, scoreO = 0\<rparr>"

definition game6 :: app where
  "game6 = \<lparr>screen = Game, boardSize = 3,
     history = [array [Null, Null, Null, Null, Null, Null, Null, Null, Null],
                array [MarkX, Null, Null, Null, Null, Null, Null, Null, Null],
                array [MarkX, Null, Null, Null, MarkO, Null, Null, Null, Null],
                array [MarkX, MarkX, Null, Null, MarkO, Null, Null, Null, Null],
                array [MarkX, MarkX, Null, Null, MarkO, MarkO, Null, Null, Null],
                array [MarkX, MarkX, MarkX, Null, MarkO, MarkO, Null, Null, Null]],
     currentMove = 5, scoreX = 1, scoreO = 0\<rparr>"

definition game9 :: app where
  "game9 = \<lparr>screen = Game, boardSize = 3,
     history = [array [Null, Null, Null, Null, Null, Null, Null, Null, Null],
                array [MarkX, Null, Null, Null, Null, Null, Null, Null, Null],
                array [MarkX, MarkO, Null, Null, Null, Null, Null, Null, Null],
                array [MarkX, MarkO, MarkX, Null, Null, Null, Null, Null, Null],
                array [MarkX, MarkO, MarkX, Null, MarkO, Null, Null, Null, Null],
                array [MarkX, MarkO, MarkX, MarkX, MarkO, Null, Null, Null, Null],
                array [MarkX, MarkO, MarkX, MarkX, MarkO, MarkO, Null, Null, Null],
                array [MarkX, MarkO, MarkX, MarkX, MarkO, MarkO, Null, MarkX, Null],
                array [MarkX, MarkO, MarkX, MarkX, MarkO, MarkO, MarkO, MarkX, Null],
                array [MarkX, MarkO, MarkX, MarkX, MarkO, MarkO, MarkO, MarkX, MarkX]],
     currentMove = 9, scoreX = 0, scoreO = 0\<rparr>"

definition both_lines :: js_array where
  "both_lines = array [MarkX, MarkX, MarkX, MarkX, MarkO, MarkO, MarkX, MarkO, Null]"

section \<open>The loops of generateWinningLines in closed form\<close>

lemma row_loop_eq: "row_loop N r c row = row @ map (\<lambda>c. r * N + c) [c..<N]"
proof (induction N r c row rule: row_loop.induct)
  case (1 N r c row)
  show ?case
  proof (cases "c < N")
    case True
    then show ?thesis
      using 1 by (subst row_loop.simps) (simp add: upt_conv_Cons)
  next
    case False
    then show ?thesis by (subst row_loop.simps) simp
  qed
qed

lemma rows_loop_eq: "rows_loop N r lines = lines @ map (spec_row N) [r..<N]"
proof (induction N r lines rule: rows_loop.induct)
  case (1 N r lines)
  show ?case
  proof (cases "r < N")
    case True
    then show ?thesis
      using 1 by (subst rows_loop.simps) (simp add: upt_conv_Cons row_loop_eq spec_row_def)
  next
    case False
    then show ?thesis by (subst rows_loop.simps) simp
  qed
qed

lemma col_loop_eq: "col_loop N c r col = col @ map (\<lambda>r. r * N + c) [r..<N]"
proof (induction N c r col rule: col_loop.induct)
  case (1 N c r col)
  show ?case
  proof (cases "r < N")
    case True
    then show ?thesis
      using 1 by (subst col_loop.simps) (simp add: upt_conv_Cons)
  next
    case False
    then show ?thesis by (subst col_loop.simps) simp
  qed
qed

lemma cols_loop_eq: "cols_loop N c lines = lines @ map (spec_column N) [c..<N]"
proof (induction N c lines rule: cols_loop.induct)
  case (1 N c lines)
  show ?case
  proof (cases "c < N")
    case True
    then show ?thesis
      using 1 by (subst cols_loop.simps) (simp add: upt_conv_Cons col_loop_eq spec_column_def)
  next
    case False
    then show ?thesis by (subst cols_loop.simps) simp
  qed
qed

lemma diag1_loop_eq: "diag1_loop N i diag1 = diag1 @ map (\<lambda>i. i * N + i) [i..<N]"
proof (induction N i diag1 rule: diag1_loop.induct)
  case (1 N i diag1)
  show ?case
  proof (cases "i < N")
    case True
    then show ?thesis
      using 1 by (subst diag1_loop.simps) (simp add: upt_conv_Cons)
  next
    case False
    then show ?thesis by (subst diag1_loop.simps) simp
  qed
qed

lemma diag2_loop_eq:
  "diag2_loop N i diag2 = diag2 @ map (\<lambda>i. i * N + (N - 1 - i)) [i..<N]"
proof (induction N i diag2 rule: diag2_loop.induct)
  case (1 N i diag2)
  show ?case
  proof (cases "i < N")
    case True
    then show ?thesis
      using 1 by (subst diag2_loop.simps) (simp add: upt_conv_Cons)
  next
    case False
    then show ?thesis by (subst diag2_loop.simps) simp
  qed
qed

lemma generateWinningLines_spec: "generateWinningLines N = spec_lines N"
  by (simp add: generateWinningLines_def spec_lines_def rows_loop_eq cols_loop_eq
      diag1_loop_eq diag2_loop_eq spec_main_diagonal_def spec_anti_diagonal_def)

lemma cell_index_bound:
  fixes r c N :: nat
  assumes "r < N" and "c < N"
  shows "r * N + c < N * N"
proof -
  have "r * N + c < r * N + N" using assms by simp
  also have "\<dots> = Suc r * N" by simp
  also have "\<dots> \<le> N * N" using assms by (intro mult_le_mono1) simp
  finally show ?thesis .
qed

lemma spec_lines_length: "length (spec_lines N) = 2 * N + 2"
  by (simp add: spec_lines_def)

lemma spec_lines_line_length: "ln \<in> set (spec_lines N) \<Longrightarrow> length ln = N"
  by (auto simp: spec_lines_def spec_row_def spec_column_def spec_main_diagonal_def
      spec_anti_diagonal_def)

lemma in_set_map_upt: "x \<in> set (map f [0..<n]) \<Longrightarrow> \<exists>k<n. x = f k"
  by auto

lemma spec_lines_index_valid:
  assumes "ln \<in> set (spec_lines N)" and "idx \<in> set ln"
  shows "idx < N * N"
proof -
  consider (row) r where "r < N" "ln = spec_row N r"
    | (col) c where "c < N" "ln = spec_column N c"
    | (d1) "ln = spec_main_diagonal N"
    | (d2) "ln = spec_anti_diagonal N"
    using assms(1) by (auto simp: spec_lines_def)
  then show ?thesis
  proof cases
    case row
    then obtain c where "c < N" "idx = r * N + c"
      using assms(2) in_set_map_upt [of idx "\<lambda>c. r * N + c" N] by (auto simp: spec_row_def)
    with row show ?thesis by (simp add: cell_index_bound)
  next
    case col
    then obtain r where "r < N" "idx = r * N + c"
      using assms(2) in_set_map_upt [of idx "\<lambda>r. r * N + c" N] by (auto simp: spec_column_def)
    with col show ?thesis by (simp add: cell_index_bound)
  next
    case d1
    then obtain i where "i < N" "idx = i * N + i"
      using assms(2) in_set_map_upt [of idx "\<lambda>i. i * N + i" N]
      by (auto simp: spec_main_diagonal_def)
    then show ?thesis by (simp add: cell_index_bound)
  next
    case d2
    then obtain i where i: "i < N" "idx = i * N + (N - 1 - i)"
      using assms(2) in_set_map_upt [of idx "\<lambda>i. i * N + (N - 1 - i)" N]
      by (auto simp: spec_anti_diagonal_def)
    have "N - 1 - i < N" using i by simp
    with i show ?thesis using cell_index_bound by blast
  qed
qed

section \<open>The scan of calculateWinner\<close>

lemma truthy_iff: "truthy v \<longleftrightarrow> v \<in> {MarkX, MarkO}"
  by (cases v) simp_all

lemma scan_lines_find:
  "scan_lines squares lns =
     (case find (complete_line squares) lns of
        None \<Rightarrow> None
      | Some ln \<Rightarrow> Some \<lparr>player = at squares (int (hd ln)), line = ln\<rparr>)"
proof (induction lns)
  case Nil
  show ?case by simp
next
  case (Cons ln rest)
  show ?case
  proof (cases ln)
    case Nil
    then show ?thesis using Cons by (simp add: complete_line_def)
  next
    case (Cons first tl)
    then show ?thesis
      using Cons.IH
      by (simp add: complete_line_def truthy_iff list_all_iff del: truthy.simps)
  qed
qed

lemma calculateWinner_find:
  "calculateWinner (Some squares) N =
     (case find (complete_line squares) (spec_lines N) of
        None \<Rightarrow> None
      | Some ln \<Rightarrow> Some \<lparr>player = at squares (int (hd ln)), line = ln\<rparr>)"
  by (simp add: calculateWinner_def scan_lines_find generateWinningLines_spec)

lemma calculateWinner_None_iff:
  "calculateWinner (Some squares) N = None
     \<longleftrightarrow> (\<forall>ln \<in> set (spec_lines N). \<not> complete_line squares ln)"
proof (cases "find (complete_line squares) (spec_lines N)")
  case None
  have "calculateWinner (Some squares) N = None"
    by (simp only: calculateWinner_find None option.case)
  moreover have "\<forall>ln \<in> set (spec_lines N). \<not> complete_line squares ln"
    using None unfolding find_None_iff by blast
  ultimately show ?thesis by blast
next
  case (Some ln)
  have "calculateWinner (Some squares) N \<noteq> None"
    by (simp only: calculateWinner_find Some option.case) simp
  moreover have "ln \<in> set (spec_lines N)" "complete_line squares ln"
    using Some unfolding find_Some_iff by auto
  ultimately show ?thesis by blast
qed

lemma calculateWinner_Some_iff:
  "calculateWinner (Some squares) N = Some w
     \<longleftrightarrow> (\<exists>k < length (spec_lines N).
            complete_line squares (spec_lines N ! k)
            \<and> (\<forall>j < k. \<not> complete_line squares (spec_lines N ! j))
            \<and> w = \<lparr>player = at squares (int (hd (spec_lines N ! k))), line = spec_lines N ! k\<rparr>)"
  (is "?lhs \<longleftrightarrow> ?rhs")
proof (cases "find (complete_line squares) (spec_lines N)")
  case None
  have "calculateWinner (Some squares) N = None"
    by (simp only: calculateWinner_find None option.case)
  then have nl: "\<not> ?lhs" by simp
  have "\<forall>ln \<in> set (spec_lines N). \<not> complete_line squares ln"
    using None unfolding find_None_iff by blast
  then have "\<not> ?rhs" using nth_mem by blast
  with nl show ?thesis by blast
next
  case (Some ln)
  then obtain i where i: "i < length (spec_lines N)" "complete_line squares (spec_lines N ! i)"
    "ln = spec_lines N ! i" "\<forall>j < i. \<not> complete_line squares (spec_lines N ! j)"
    unfolding find_Some_iff by blast
  have cw: "calculateWinner (Some squares) N = Some \<lparr>player = at squares (int (hd ln)), line = ln\<rparr>"
    by (simp only: calculateWinner_find Some option.case)
  have uniq: "k = i" if "k < length (spec_lines N)" "complete_line squares (spec_lines N ! k)"
    "\<forall>j < k. \<not> complete_line squares (spec_lines N ! j)" for k
  proof (rule ccontr)
    assume "k \<noteq> i"
    then consider "k < i" | "i < k" by linarith
    then show False
    proof cases
      case 1
      with i(4) that(2) show False by blast
    next
      case 2
      with that(3) i(2) show False by blast
    qed
  qed
  show ?thesis
  proof
    assume ?lhs
    then have "w = \<lparr>player = at squares (int (hd ln)), line = ln\<rparr>"
      using cw by simp
    with i show ?rhs by (intro exI [of _ i]) simp
  next
    assume ?rhs
    then obtain k where k: "k < length (spec_lines N)"
      "complete_line squares (spec_lines N ! k)"
      "\<forall>j < k. \<not> complete_line squares (spec_lines N ! j)"
      "w = \<lparr>player = at squares (int (hd (spec_lines N ! k))), line = spec_lines N ! k\<rparr>"
      by (elim exE conjE)
    then have "k = i" using uniq [of k] by simp
    with k(4) i(3) cw show ?lhs by simp
  qed
qed

lemma complete_line_first:
  "complete_line squares ln \<Longrightarrow> at squares (int (hd ln)) \<in> {MarkX, MarkO}"
  unfolding complete_line_def by blast

lemma calculateWinner_player:
  assumes "calculateWinner (Some squares) N = Some w"
  shows "player w \<in> {MarkX, MarkO}"
proof -
  have "\<exists>k < length (spec_lines N).
            complete_line squares (spec_lines N ! k)
            \<and> (\<forall>j < k. \<not> complete_line squares (spec_lines N ! j))
            \<and> w = \<lparr>player = at squares (int (hd (spec_lines N ! k))), line = spec_lines N ! k\<rparr>"
    using assms calculateWinner_Some_iff by blast
  then obtain k where c: "complete_line squares (spec_lines N ! k)"
    and w: "player w = at squares (int (hd (spec_lines N ! k)))"
    by auto
  show ?thesis using complete_line_first [OF c] by (simp only: w)
qed

lemma complete_line_agree:
  assumes "\<forall>idx \<in> set ln. at a (int idx) = at b (int idx)"
  shows "complete_line a ln = complete_line b ln"
proof (cases ln)
  case Nil
  then show ?thesis by (simp add: complete_line_def)
next
  case (Cons first rest)
  then have "hd ln \<in> set ln" by simp
  then have h: "at a (int (hd ln)) = at b (int (hd ln))"
    using assms by blast
  show ?thesis unfolding complete_line_def h using assms by auto
qed

lemma calculateWinner_None_agree:
  assumes "\<forall>idx < N * N. at a (int idx) = at b (int idx)"
  shows "calculateWinner (Some a) N = None \<longleftrightarrow> calculateWinner (Some b) N = None"
proof -
  have "complete_line a ln = complete_line b ln" if "ln \<in> set (spec_lines N)" for ln
  proof (rule complete_line_agree)
    show "\<forall>idx \<in> set ln. at a (int idx) = at b (int idx)"
      using that assms spec_lines_index_valid [of ln N] by blast
  qed
  then show ?thesis unfolding calculateWinner_None_iff by blast
qed

section \<open>Reading and writing a board\<close>

lemma nat_inside: "0 \<le> i \<Longrightarrow> i < int n \<Longrightarrow> nat i < n"
  by linarith

lemma at_inside:
  assumes "0 \<le> i" and "i < int (length (elems squares))"
  shows "at squares i = elems squares ! nat i"
  using assms nat_inside [OF assms] by (simp add: at_def)

lemma put_slice_inside:
  assumes "0 \<le> i" and "i < int (length (elems squares))"
  shows "put (slice squares) i v = array ((elems squares)[nat i := v])"
  using assms nat_inside [OF assms] by (simp add: put_def slice_def array_def)

lemma at_elems_prefix:
  assumes "idx < length (elems a)" and "elems b = elems a @ ext"
  shows "at b (int idx) = at a (int idx)"
  using assms by (simp add: at_def nth_append)

lemma put_slice_outside:
  assumes "i < 0 \<or> int (length (elems squares)) \<le> i"
  shows "put (slice squares) i v =
           (if is_index i
            then array (elems squares @ replicate (nat i - length (elems squares)) Undefined @ [v])
            else \<lparr>elems = elems squares, props = [(i, v)]\<rparr>)"
proof -
  have "\<not> (0 \<le> i \<and> nat i < length (elems squares))" using assms by linarith
  then have n: "\<not> (0 \<le> i \<and> nat i < length (elems (slice squares)))"
    by (simp add: slice_def array_def)
  show ?thesis
    unfolding put_def if_not_P [OF n] by (simp add: slice_def array_def)
qed

lemma at_outside_index:
  assumes "i < 0 \<or> int (length (elems squares)) \<le> i" and "is_index i"
  shows "at squares i = Undefined"
proof -
  have n: "\<not> (0 \<le> i \<and> nat i < length (elems squares))" using assms(1) by linarith
  show ?thesis
    unfolding at_def if_not_P [OF n] using assms(2) by simp
qed

lemma calculateWinner_None_put_outside:
  assumes len: "length (elems squares) = N * N"
    and out: "i < 0 \<or> int (N * N) \<le> i"
    and nw: "calculateWinner (Some squares) N = None"
  shows "calculateWinner (Some (put (slice squares) i v)) N = None"
proof -
  let ?b = "put (slice squares) i v"
  have out': "i < 0 \<or> int (length (elems squares)) \<le> i" using out len by simp
  obtain ext where e: "elems ?b = elems squares @ ext"
  proof (cases "is_index i")
    case True
    then have "elems ?b = elems squares
                 @ (replicate (nat i - length (elems squares)) Undefined @ [v])"
      by (simp add: put_slice_outside [OF out'] array_def)
    then show ?thesis by (rule that)
  next
    case False
    then have "elems ?b = elems squares @ []"
      by (simp add: put_slice_outside [OF out'])
    then show ?thesis by (rule that)
  qed
  have "at ?b (int idx) = at squares (int idx)" if "idx < N * N" for idx
  proof (rule at_elems_prefix [OF _ e])
    show "idx < length (elems squares)" using that len by simp
  qed
  then have "\<forall>idx < N * N. at ?b (int idx) = at squares (int idx)" by blast
  then have "calculateWinner (Some ?b) N = None \<longleftrightarrow> calculateWinner (Some squares) N = None"
    by (rule calculateWinner_None_agree)
  with nw show ?thesis by blast
qed

section \<open>The handlers, case by case\<close>

lemma handlePlay_history:
  "history (handlePlay s nextSquares) = take (currentMove s + 1) (history s) @ [nextSquares]"
  by (simp add: handlePlay_def Let_def split: option.split)

lemma handlePlay_currentMove:
  "currentMove (handlePlay s nextSquares) = length (history (handlePlay s nextSquares)) - 1"
  by (simp add: handlePlay_def Let_def split: option.split)

lemma handlePlay_scores_None:
  assumes "calculateWinner (Some nextSquares) (boardSize s) = None"
  shows "scoreX (handlePlay s nextSquares) = scoreX s"
    and "scoreO (handlePlay s nextSquares) = scoreO s"
  using assms by (simp_all add: handlePlay_def Let_def)

lemma handlePlay_scores_X:
  assumes "calculateWinner (Some nextSquares) (boardSize s) = Some w" and "player w = MarkX"
  shows "scoreX (handlePlay s nextSquares) = scoreX s + 1"
    and "scoreO (handlePlay s nextSquares) = scoreO s"
  using assms by (simp_all add: handlePlay_def Let_def)

lemma handlePlay_scores_O:
  assumes "calculateWinner (Some nextSquares) (boardSize s) = Some w" and "player w = MarkO"
  shows "scoreX (handlePlay s nextSquares) = scoreX s"
    and "scoreO (handlePlay s nextSquares) = scoreO s + 1"
  using assms by (simp_all add: handlePlay_def Let_def)

lemma handlePlay_scores:
  "(calculateWinner (Some b) (boardSize s) = None
      \<and> scoreX (handlePlay s b) = scoreX s \<and> scoreO (handlePlay s b) = scoreO s)
   \<or> (\<exists>w. calculateWinner (Some b) (boardSize s) = Some w \<and> player w = MarkX
      \<and> scoreX (handlePlay s b) = scoreX s + 1 \<and> scoreO (handlePlay s b) = scoreO s)
   \<or> (\<exists>w. calculateWinner (Some b) (boardSize s) = Some w \<and> player w = MarkO
      \<and> scoreX (handlePlay s b) = scoreX s \<and> scoreO (handlePlay s b) = scoreO s + 1)"
proof (cases "calculateWinner (Some b) (boardSize s)")
  case None
  then show ?thesis by (simp add: handlePlay_scores_None)
next
  case (Some w)
  then have "player w \<in> {MarkX, MarkO}" by (rule calculateWinner_player)
  then consider "player w = MarkX" | "player w = MarkO" by blast
  then show ?thesis
  proof cases
    case 1
    with Some show ?thesis by (simp add: handlePlay_scores_X)
  next
    case 2
    with Some show ?thesis by (simp add: handlePlay_scores_O)
  qed
qed

lemma handlePlay_currentMove_Suc:
  assumes "currentMove s < length (history s)"
  shows "currentMove (handlePlay s b) = currentMove s + 1"
  using assms by (simp add: handlePlay_currentMove handlePlay_history)

lemma handlePlay_currentSquares: "currentSquares (handlePlay s b) = Some b"
  by (simp add: currentSquares_def handlePlay_currentMove handlePlay_history nth_append)

lemma handlePlay_nonempty: "history (handlePlay s b) \<noteq> []"
  by (simp add: handlePlay_history)

lemma currentSquares_Some_iff:
  "currentSquares s = Some squares
     \<longleftrightarrow> currentMove s < length (history s) \<and> squares = history s ! currentMove s"
  by (auto simp: currentSquares_def)

lemma handleClick_winner:
  assumes "currentSquares s = Some squares"
    and "calculateWinner (Some squares) (boardSize s) \<noteq> None"
  shows "handleClick s i = Inr s"
  using assms by (auto simp: handleClick_def split: option.split)

lemma handleClick_occupied:
  assumes "currentSquares s = Some squares"
    and "at squares i \<in> {MarkX, MarkO}"
  shows "handleClick s i = Inr s"
  using assms by (auto simp: handleClick_def split: option.split)

lemma handleClick_play:
  assumes "currentSquares s = Some squares"
    and "calculateWinner (Some squares) (boardSize s) = None"
    and "at squares i \<notin> {MarkX, MarkO}"
  shows "handleClick s i = Inr (handlePlay s (put (slice squares) i (mover s)))"
  using assms by (auto simp: handleClick_def truthy_iff xIsNext_def mover_def even_iff_mod_2_eq_zero
      simp del: truthy.simps)

lemma handleClick_undefined:
  assumes "currentSquares s = None"
  shows "handleClick s i = Inl TypeError"
  using assms by (simp add: handleClick_def calculateWinner_def)

lemma handleClick_cases:
  assumes "handleClick s i = Inr s'"
  obtains (noop) "s' = s"
  | (play) squares where "currentSquares s = Some squares"
      and "calculateWinner (Some squares) (boardSize s) = None"
      and "s' = handlePlay s (put (slice squares) i (mover s))"
proof (cases "currentSquares s")
  case None
  then show ?thesis using assms by (simp add: handleClick_undefined)
next
  case (Some squares)
  show ?thesis
  proof (cases "at squares i \<in> {MarkX, MarkO}
                \<or> calculateWinner (Some squares) (boardSize s) \<noteq> None")
    case True
    then have "handleClick s i = Inr s"
      using Some handleClick_winner handleClick_occupied by blast
    then show ?thesis using assms noop by simp
  next
    case False
    then have "handleClick s i = Inr (handlePlay s (put (slice squares) i (mover s)))"
      using Some by (intro handleClick_play) auto
    then show ?thesis using assms play Some False by simp
  qed
qed

lemma legal_playD:
  assumes "legal_play s i"
  obtains squares where "currentSquares s = Some squares"
    and "calculateWinner (Some squares) (boardSize s) = None"
    and "0 \<le> i" and "i < int (length (elems squares))" and "elems squares ! nat i = Null"
  using assms by (auto simp: legal_play_def split: option.splits)

lemma click_on_empty_cell:
  assumes cs: "currentSquares s = Some squares"
    and nw: "calculateWinner (Some squares) (boardSize s) = None"
    and i: "0 \<le> i" "i < int (length (elems squares))" and e: "elems squares ! nat i = Null"
  shows "handleClick s i = Inr (handlePlay s (array ((elems squares)[nat i := mover s])))"
proof -
  have "at squares i = Null" using i e by (simp add: at_inside)
  then have "at squares i \<notin> {MarkX, MarkO}" by simp
  then have "handleClick s i = Inr (handlePlay s (put (slice squares) i (mover s)))"
    using cs nw by (rule handleClick_play [rotated 2])
  then show ?thesis using i by (simp add: put_slice_inside)
qed

lemma click_outside_plays:
  assumes cs: "currentSquares s = Some squares"
    and len: "length (elems squares) = boardSize s * boardSize s"
    and out: "i < 0 \<or> int (boardSize s * boardSize s) \<le> i"
    and nw: "calculateWinner (Some squares) (boardSize s) = None"
    and free: "at squares i \<notin> {MarkX, MarkO}"
    and b: "b = put (slice squares) i (mover s)"
  shows "handleClick s i = Inr (handlePlay s b)"
    and "history (handlePlay s b) = take (currentMove s + 1) (history s) @ [b]"
    and "currentMove (handlePlay s b) = currentMove s + 1"
    and "scoreX (handlePlay s b) = scoreX s"
    and "scoreO (handlePlay s b) = scoreO s"
    and "handlePlay s b = s\<lparr>history := take (currentMove s + 1) (history s) @ [b],
                            currentMove := currentMove s + 1\<rparr>"
proof -
  show "handleClick s i = Inr (handlePlay s b)"
    unfolding b using cs nw free by (rule handleClick_play)
  show "history (handlePlay s b) = take (currentMove s + 1) (history s) @ [b]"
    by (rule handlePlay_history)
  have cm: "currentMove s < length (history s)"
    using cs by (simp add: currentSquares_Some_iff)
  then show "currentMove (handlePlay s b) = currentMove s + 1"
    by (rule handlePlay_currentMove_Suc)
  have nw': "calculateWinner (Some b) (boardSize s) = None"
    unfolding b using len out nw by (rule calculateWinner_None_put_outside)
  show "scoreX (handlePlay s b) = scoreX s" using nw' by (rule handlePlay_scores_None)
  show "scoreO (handlePlay s b) = scoreO s" using nw' by (rule handlePlay_scores_None)
  have "length (take (currentMove s + 1) (history s) @ [b]) - 1 = currentMove s + 1"
    using cm by simp
  then show "handlePlay s b = s\<lparr>history := take (currentMove s + 1) (history s) @ [b],
                                 currentMove := currentMove s + 1\<rparr>"
    using nw' by (simp add: handlePlay_def Let_def del: length_append length_take)
qed

lemma status_winner:
  assumes "calculateWinner (currentSquares s) (boardSize s) = Some w"
  shows "status s = Inr (''Winner: '' @ to_string (player w))"
  using assms by (simp add: status_def)

lemma status_no_winner:
  assumes "currentSquares s = Some squares"
    and "calculateWinner (Some squares) (boardSize s) = None"
  shows "status s = (if list_all (\<lambda>val. val \<noteq> Null) (elems squares) then Inr ''Draw!''
                     else Inr (''Next: '' @ (if xIsNext s then ''X'' else ''O'')))"
  using assms by (simp add: status_def)

lemma reachable_history_nonempty: "reachable s \<Longrightarrow> history s \<noteq> []"
proof (induction rule: reachable.induct)
  case init
  show ?case by (simp add: initial_def)
next
  case (size s n)
  then show ?case by (simp add: setBoardSize_def)
next
  case (start s)
  show ?case by (simp add: handleStart_def)
next
  case (click s i s')
  from click(3) show ?case
  proof (cases rule: handleClick_cases)
    case noop
    with click.IH show ?thesis by simp
  next
    case (play squares)
    then show ?thesis by (simp add: handlePlay_nonempty)
  qed
next
  case (jump s move)
  then show ?case by (simp add: jumpTo_def)
next
  case (restart s)
  show ?case by (simp add: restartGame_def)
qed

section \<open>Scenarios\<close>

text \<open>
  The two 3 by 3 scenarios of the specification, run on the model: the moves
  0, 4, 1, 5, 2 end with X winning on the top row, and nine moves that complete no line
  end in a draw.
\<close>

lemma scenario_win: "clicks (handleStart initial) [0, 4, 1, 5, 2] = Inr game6"
  by code_simp

lemma scenario_draw: "clicks (handleStart initial) [0, 1, 2, 4, 3, 5, 7, 6, 8] = Inr game9"
  by code_simp

text \<open>
  A click at index -1 during a game records a snapshot whose cells are those of the
  active board and which carries the mark as a property.
\<close>

lemma scenario_property: "handleClick game3 (- 1) = Inr game4p"
  by code_simp

section \<open>Winner calculation\<close>

text \<open>
  Claim C1. For every board and every grid size \<open>N\<close>, \<open>calculateWinner\<close> scans the
  candidate lines in the fixed enumeration order (the \<open>N\<close> rows, then the \<open>N\<close> columns,
  then the main diagonal, then the anti-diagonal) and returns the first line whose first
  cell holds a mark and whose cells all hold the identical mark, together with that mark
  as the winning player; when no line is complete it reports no winner.

  The lines the source generates are the specification's enumeration; the result is
  \<open>None\<close> exactly when no line of it is complete; and the result is a record \<open>w\<close>
  exactly when \<open>w\<close> consists of the line at the least position \<open>k\<close> that is complete
  and of the mark in that line's first cell.
\<close>

theorem calculateWinner_first_complete_line:
  "generateWinningLines N = spec_lines N
   \<and> (calculateWinner (Some squares) N = None
        \<longleftrightarrow> (\<forall>ln \<in> set (spec_lines N). \<not> complete_line squares ln))
   \<and> (\<forall>w. calculateWinner (Some squares) N = Some w
        \<longleftrightarrow> (\<exists>k < length (spec_lines N).
               complete_line squares (spec_lines N ! k)
               \<and> (\<forall>j < k. \<not> complete_line squares (spec_lines N ! j))
               \<and> w = \<lparr>player = at squares (int (hd (spec_lines N ! k))),
                       line = spec_lines N ! k\<rparr>))"
proof (intro conjI allI)
  show "generateWinningLines N = spec_lines N"
    by (rule generateWinningLines_spec)
  show "calculateWinner (Some squares) N = None
        \<longleftrightarrow> (\<forall>ln \<in> set (spec_lines N). \<not> complete_line squares ln)"
    by (rule calculateWinner_None_iff)
  show "calculateWinner (Some squares) N = Some w
        \<longleftrightarrow> (\<exists>k < length (spec_lines N).
               complete_line squares (spec_lines N ! k)
               \<and> (\<forall>j < k. \<not> complete_line squares (spec_lines N ! j))
               \<and> w = \<lparr>player = at squares (int (hd (spec_lines N ! k))),
                       line = spec_lines N ! k\<rparr>)" for w
    by (rule calculateWinner_Some_iff)
qed

text \<open>
  The statement of C1 at a board where the top row and the left column are both
  complete: the row, which comes first in the enumeration, is returned.
\<close>

theorem calculateWinner_first_complete_line_witness:
  "calculateWinner (Some both_lines) 3 = Some \<lparr>player = MarkX, line = [0, 1, 2]\<rparr>
   \<and> complete_line both_lines [0, 3, 6]
   \<and> (\<exists>k < length (spec_lines 3).
          complete_line both_lines (spec_lines 3 ! k)
          \<and> (\<forall>j < k. \<not> complete_line both_lines (spec_lines 3 ! j))
          \<and> \<lparr>player = MarkX, line = [0, 1, 2]\<rparr>
              = \<lparr>player = at both_lines (int (hd (spec_lines 3 ! k))), line = spec_lines 3 ! k\<rparr>)"
proof -
  have e: "calculateWinner (Some both_lines) 3 = Some \<lparr>player = MarkX, line = [0, 1, 2]\<rparr>"
    by code_simp
  have c: "complete_line both_lines [0, 3, 6]"
    by code_simp
  from calculateWinner_first_complete_line [of 3 both_lines]
  have "\<forall>w. calculateWinner (Some both_lines) 3 = Some w
        \<longleftrightarrow> (\<exists>k < length (spec_lines 3).
               complete_line both_lines (spec_lines 3 ! k)
               \<and> (\<forall>j < k. \<not> complete_line both_lines (spec_lines 3 ! j))
               \<and> w = \<lparr>player = at both_lines (int (hd (spec_lines 3 ! k))),
                       line = spec_lines 3 ! k\<rparr>)"
    by (elim conjE)
  then have "calculateWinner (Some both_lines) 3 = Some \<lparr>player = MarkX, line = [0, 1, 2]\<rparr>
        \<longleftrightarrow> (\<exists>k < length (spec_lines 3).
               complete_line both_lines (spec_lines 3 ! k)
               \<and> (\<forall>j < k. \<not> complete_line both_lines (spec_lines 3 ! j))
               \<and> \<lparr>player = MarkX, line = [0, 1, 2]\<rparr>
                   = \<lparr>player = at both_lines (int (hd (spec_lines 3 ! k))),
                       line = spec_lines 3 ! k\<rparr>)"
    by (rule spec)
  with e c show ?thesis by (simp only: simp_thms)
qed

text \<open>
  Claim C2. For every grid size \<open>N\<close> the line generator produces exactly \<open>2 * N + 2\<close>
  lines, each of length exactly \<open>N\<close>, with every index below \<open>N * N\<close>; line \<open>r\<close>
  (for \<open>r < N\<close>) is row \<open>r\<close>, whose cell \<open>c\<close> is \<open>r * N + c\<close>; line \<open>N + c\<close> is
  column \<open>c\<close>, whose cell \<open>r\<close> is \<open>r * N + c\<close>; line \<open>2 * N\<close> is the main diagonal,
  whose cell \<open>i\<close> is \<open>i * N + i\<close>; and line \<open>2 * N + 1\<close> is the anti-diagonal, whose
  cell \<open>i\<close> is \<open>i * N + (N - 1 - i)\<close>.
\<close>

theorem generateWinningLines_shape:
  "length (generateWinningLines N) = 2 * N + 2
   \<and> (\<forall>ln \<in> set (generateWinningLines N). length ln = N \<and> (\<forall>idx \<in> set ln. idx < N * N))
   \<and> (\<forall>r < N. \<forall>c < N. generateWinningLines N ! r ! c = r * N + c)
   \<and> (\<forall>c < N. \<forall>r < N. generateWinningLines N ! (N + c) ! r = r * N + c)
   \<and> (\<forall>i < N. generateWinningLines N ! (2 * N) ! i = i * N + i)
   \<and> (\<forall>i < N. generateWinningLines N ! (2 * N + 1) ! i = i * N + (N - 1 - i))"
proof -
  let ?L = "generateWinningLines N"
  have L: "?L = spec_lines N" by (rule generateWinningLines_spec)
  have len: "length ?L = 2 * N + 2" by (simp add: L spec_lines_length)
  have each: "\<forall>ln \<in> set ?L. length ln = N \<and> (\<forall>idx \<in> set ln. idx < N * N)"
    using spec_lines_line_length spec_lines_index_valid by (auto simp: L)
  have rows: "\<forall>r < N. \<forall>c < N. ?L ! r ! c = r * N + c"
    by (simp add: L spec_lines_def nth_append spec_row_def)
  have cols: "\<forall>c < N. \<forall>r < N. ?L ! (N + c) ! r = r * N + c"
    by (simp add: L spec_lines_def nth_append spec_column_def)
  have d1: "\<forall>i < N. ?L ! (2 * N) ! i = i * N + i"
    by (simp add: L spec_lines_def nth_append spec_main_diagonal_def)
  have d2: "\<forall>i < N. ?L ! (2 * N + 1) ! i = i * N + (N - 1 - i)"
    by (simp add: L spec_lines_def nth_append spec_anti_diagonal_def)
  show ?thesis using len each rows cols d1 d2 by blast
qed

text \<open>
  The statement of C2 at \<open>N = 3\<close>.
\<close>

theorem generateWinningLines_shape_witness:
  "length (generateWinningLines 3) = 8
   \<and> generateWinningLines 3 ! 1 ! 2 = 5
   \<and> generateWinningLines 3 ! (3 + 2) ! 1 = 5
   \<and> generateWinningLines 3 ! (2 * 3) ! 2 = 8
   \<and> generateWinningLines 3 ! (2 * 3 + 1) ! 0 = 2"
proof -
  note t = generateWinningLines_shape [of 3]
  from t have len: "length (generateWinningLines 3) = 2 * 3 + 2"
    by (elim conjE)
  from t have rows: "\<forall>r < 3. \<forall>c < 3. generateWinningLines 3 ! r ! c = r * 3 + c"
    by (elim conjE)
  from t have cols: "\<forall>c < 3. \<forall>r < 3. generateWinningLines 3 ! (3 + c) ! r = r * 3 + c"
    by (elim conjE)
  from t have d1: "\<forall>i < 3. generateWinningLines 3 ! (2 * 3) ! i = i * 3 + i"
    by (elim conjE)
  from t have d2: "\<forall>i < 3. generateWinningLines 3 ! (2 * 3 + 1) ! i = i * 3 + (3 - 1 - i)"
    by (elim conjE)
  have "generateWinningLines 3 ! 1 ! 2 = 5" using rows [rule_format, of 1 2] by simp
  moreover have "generateWinningLines 3 ! (3 + 2) ! 1 = 5" using cols [rule_format, of 2 1] by simp
  moreover have "generateWinningLines 3 ! (2 * 3) ! 2 = 8" using d1 [rule_format, of 2] by simp
  moreover have "generateWinningLines 3 ! (2 * 3 + 1) ! 0 = 2" using d2 [rule_format, of 0] by simp
  ultimately show ?thesis using len by simp
qed

section \<open>Playing a move\<close>

text \<open>
  Claim C3. For every legal play (the active board has no winner and is not full, the
  cell index is inside the board, the target cell is empty) the click produces a new
  board equal to the active board with the cell set to the mark of the parity-derived
  player (X when \<open>currentMove\<close> is even, else O), truncates the history to the indices
  \<open>0, \<dots>, currentMove\<close>, appends the new board and sets \<open>currentMove\<close> to the new last
  index. In particular, on a history of length 5, jumping to move 0 and then playing
  gives a history of length 2.

  A board of the data model has length \<open>N * N\<close>, so that "inside the board" is
  "from 0 to below \<open>N * N\<close>" there. The new board is a fresh array: the cells of
  the active board with the one cell set.
\<close>

theorem handleClick_legal_play:
  "(legal_play s i \<longrightarrow>
      (\<exists>squares s'. currentSquares s = Some squares \<and> handleClick s i = Inr s'
         \<and> history s' = take (currentMove s + 1) (history s)
              @ [array ((elems squares)[nat i := mover s])]
         \<and> currentMove s' = length (history s') - 1
         \<and> currentMove s' = currentMove s + 1
         \<and> currentSquares s' = Some (array ((elems squares)[nat i := mover s]))))
   \<and> (length (history s) = 5 \<and> legal_play (jumpTo s 0) i \<longrightarrow>
        (\<exists>s'. handleClick (jumpTo s 0) i = Inr s' \<and> length (history s') = 2))"
proof (intro conjI impI)
  assume "legal_play s i"
  then obtain squares where cs: "currentSquares s = Some squares"
    and nw: "calculateWinner (Some squares) (boardSize s) = None"
    and i: "0 \<le> i" "i < int (length (elems squares))"
    and e: "elems squares ! nat i = Null"
    by (rule legal_playD)
  let ?b = "array ((elems squares)[nat i := mover s])"
  let ?s' = "handlePlay s ?b"
  have cm: "currentMove s < length (history s)"
    using cs by (simp add: currentSquares_Some_iff)
  have "handleClick s i = Inr ?s'" using cs nw i e by (rule click_on_empty_cell)
  moreover have "history ?s' = take (currentMove s + 1) (history s) @ [?b]"
    by (rule handlePlay_history)
  moreover have "currentMove ?s' = length (history ?s') - 1"
    by (rule handlePlay_currentMove)
  moreover have "currentMove ?s' = currentMove s + 1"
    using cm by (rule handlePlay_currentMove_Suc)
  moreover have "currentSquares ?s' = Some ?b"
    by (rule handlePlay_currentSquares)
  ultimately show "\<exists>squares s'. currentSquares s = Some squares \<and> handleClick s i = Inr s'
         \<and> history s' = take (currentMove s + 1) (history s)
              @ [array ((elems squares)[nat i := mover s])]
         \<and> currentMove s' = length (history s') - 1
         \<and> currentMove s' = currentMove s + 1
         \<and> currentSquares s' = Some (array ((elems squares)[nat i := mover s]))"
    using cs by blast
next
  assume a: "length (history s) = 5 \<and> legal_play (jumpTo s 0) i"
  let ?j = "jumpTo s 0"
  from a obtain squares where cs: "currentSquares ?j = Some squares"
    and nw: "calculateWinner (Some squares) (boardSize ?j) = None"
    and i: "0 \<le> i" "i < int (length (elems squares))"
    and e: "elems squares ! nat i = Null"
    by (blast elim: legal_playD)
  let ?s' = "handlePlay ?j (array ((elems squares)[nat i := mover ?j]))"
  have "handleClick ?j i = Inr ?s'" using cs nw i e by (rule click_on_empty_cell)
  moreover have "length (history ?s') = 2"
    using a by (simp add: handlePlay_history jumpTo_def)
  ultimately show "\<exists>s'. handleClick (jumpTo s 0) i = Inr s' \<and> length (history s') = 2"
    by blast
qed

text \<open>
  The statement of C3 at the game after the moves 0, 4, 1, 5: playing cell 2, and
  jumping back to the start and playing cell 0.
\<close>

theorem handleClick_legal_play_witness:
  "legal_play game5 2
   \<and> (\<exists>squares s'. currentSquares game5 = Some squares \<and> handleClick game5 2 = Inr s'
         \<and> history s' = take (currentMove game5 + 1) (history game5)
              @ [array ((elems squares)[nat 2 := mover game5])]
         \<and> currentMove s' = length (history s') - 1
         \<and> currentMove s' = currentMove game5 + 1
         \<and> currentSquares s' = Some (array ((elems squares)[nat 2 := mover game5])))
   \<and> handleClick game5 2 = Inr game6
   \<and> length (history game5) = 5
   \<and> legal_play (jumpTo game5 0) 0
   \<and> (\<exists>s'. handleClick (jumpTo game5 0) 0 = Inr s' \<and> length (history s') = 2)"
proof -
  have l1: "legal_play game5 2" by code_simp
  have l2: "length (history game5) = 5 \<and> legal_play (jumpTo game5 0) 0" by code_simp
  have c: "handleClick game5 2 = Inr game6" by code_simp
  note a = handleClick_legal_play [of game5 2, THEN conjunct1, rule_format, OF l1]
  note b = handleClick_legal_play [of game5 0, THEN conjunct2, rule_format, OF l2]
  from l1 l2 c a b show ?thesis by (intro conjI) simp_all
qed

text \<open>
  Claim C4. Clicking a cell that already holds a mark, or clicking when the active
  board already has a winner, does nothing: the click returns the state it was given,
  so that history, \<open>currentMove\<close>, \<open>scoreX\<close> and \<open>scoreO\<close> are unchanged, and no error
  is raised.
\<close>

theorem handleClick_illegal_noop:
  assumes "currentSquares s = Some squares"
    and "at squares i \<in> {MarkX, MarkO} \<or> calculateWinner (Some squares) (boardSize s) \<noteq> None"
  shows "handleClick s i = Inr s"
  using assms handleClick_winner handleClick_occupied by blast

text \<open>
  The statement of C4 at an occupied cell of a running game and at a free cell of a
  game that X has won.
\<close>

theorem handleClick_illegal_noop_witness:
  "currentSquares game5 = Some (history game5 ! 4)
   \<and> at (history game5 ! 4) 0 = MarkX
   \<and> handleClick game5 0 = Inr game5
   \<and> currentSquares game6 = Some (history game6 ! 5)
   \<and> calculateWinner (Some (history game6 ! 5)) (boardSize game6) \<noteq> None
   \<and> handleClick game6 8 = Inr game6"
proof -
  have c5: "currentSquares game5 = Some (history game5 ! 4)" by code_simp
  have o5: "at (history game5 ! 4) 0 = MarkX" by code_simp
  have c6: "currentSquares game6 = Some (history game6 ! 5)" by code_simp
  have w6: "calculateWinner (Some (history game6 ! 5)) (boardSize game6) \<noteq> None" by code_simp
  have m5: "at (history game5 ! 4) 0 \<in> {MarkX, MarkO}" by code_simp
  have "handleClick game5 0 = Inr game5"
    by (rule handleClick_illegal_noop [OF c5 disjI1 [OF m5]])
  moreover have "handleClick game6 8 = Inr game6"
    by (rule handleClick_illegal_noop [OF c6 disjI2 [OF w6]])
  ultimately show ?thesis using c5 o5 c6 w6 by simp
qed

text \<open>
  Claim C9, as stated: for every cell index outside \<open>[0, N * N)\<close> the play returns the
  unchanged state. It fails on a fresh 3 by 3 game at index 9: \<open>squares[9]\<close> is
  \<open>undefined\<close>, which is falsy, so the click goes on, the assignment grows the copied
  board to ten cells, and the new board is recorded as move 1.
\<close>

theorem handleClick_out_of_range_counterexample:
  "boardSize game1 * boardSize game1 = 9
   \<and> length (history game1) = 1 \<and> currentMove game1 = 0
   \<and> handleClick game1 9
       = Inr (game1\<lparr>history :=
                      [array [Null, Null, Null, Null, Null, Null, Null, Null, Null],
                       array [Null, Null, Null, Null, Null, Null, Null, Null, Null, MarkX]],
                    currentMove := 1\<rparr>)
   \<and> handleClick game1 9 \<noteq> Inr game1"
  by code_simp

text \<open>
  Claim C9, amended. For every integer cell index \<open>i\<close> outside \<open>[0, N * N)\<close>, on an
  active board of length \<open>N * N\<close>, the click raises no error. It does nothing when the
  active board already has a winner, or when it already carries a mark under \<open>i\<close>; the
  latter cannot happen for an array index, where the read is \<open>undefined\<close>. Otherwise it
  truncates the history to the indices \<open>0, \<dots>, currentMove\<close>, appends one snapshot and
  advances \<open>currentMove\<close> by one, and \<open>scoreX\<close> and \<open>scoreO\<close> are unchanged. For an
  array index, \<open>N * N \<le> i \<le> 2 ^ 32 - 2\<close>, the snapshot is the active board grown to
  length \<open>i + 1\<close> (the cells in between reading as \<open>undefined\<close>) with the mover's mark
  at \<open>i\<close>. For \<open>i < 0\<close> and for \<open>i \<ge> 2 ^ 32 - 1\<close> the snapshot has the cells of the
  active board, unchanged in number, and carries the mover's mark as a property under
  \<open>i\<close>.
\<close>

theorem handleClick_out_of_range:
  assumes "currentSquares s = Some squares"
    and "length (elems squares) = boardSize s * boardSize s"
    and "i < 0 \<or> int (boardSize s * boardSize s) \<le> i"
  shows "(\<exists>s'. handleClick s i = Inr s')
    \<and> (is_index i \<longrightarrow> at squares i = Undefined)
    \<and> (calculateWinner (Some squares) (boardSize s) \<noteq> None \<or> at squares i \<in> {MarkX, MarkO}
         \<longrightarrow> handleClick s i = Inr s)
    \<and> (calculateWinner (Some squares) (boardSize s) = None \<and> at squares i \<notin> {MarkX, MarkO}
         \<longrightarrow>
         handleClick s i
           = Inr (s\<lparr>history := take (currentMove s + 1) (history s)
                       @ [if is_index i
                          then array (elems squares
                                 @ replicate (nat i - boardSize s * boardSize s) Undefined
                                 @ [mover s])
                          else \<lparr>elems = elems squares, props = [(i, mover s)]\<rparr>],
                    currentMove := currentMove s + 1\<rparr>))"
proof -
  let ?N = "boardSize s"
  let ?b = "if is_index i
            then array (elems squares @ replicate (nat i - ?N * ?N) Undefined @ [mover s])
            else \<lparr>elems = elems squares, props = [(i, mover s)]\<rparr>"
  let ?s' = "s\<lparr>history := take (currentMove s + 1) (history s) @ [?b],
               currentMove := currentMove s + 1\<rparr>"
  have out: "i < 0 \<or> int (length (elems squares)) \<le> i"
    using assms(2,3) by simp
  have p: "?b = put (slice squares) i (mover s)"
    unfolding put_slice_outside [OF out] assms(2) by (rule refl)
  have noop: "handleClick s i = Inr s"
    if "calculateWinner (Some squares) ?N \<noteq> None \<or> at squares i \<in> {MarkX, MarkO}"
    using that assms(1) handleClick_winner handleClick_occupied by blast
  have play: "handleClick s i = Inr ?s'"
    if nw: "calculateWinner (Some squares) ?N = None \<and> at squares i \<notin> {MarkX, MarkO}"
  proof -
    note c = click_outside_plays [OF assms(1,2,3) conjunct1 [OF nw] conjunct2 [OF nw] p]
    show ?thesis unfolding c(6) [symmetric] by (rule c(1))
  qed
  have total: "\<exists>s'. handleClick s i = Inr s'"
  proof (cases "calculateWinner (Some squares) ?N \<noteq> None \<or> at squares i \<in> {MarkX, MarkO}")
    case True
    then have "handleClick s i = Inr s" by (rule noop)
    then show ?thesis by (intro exI [of _ s])
  next
    case False
    then have "calculateWinner (Some squares) ?N = None \<and> at squares i \<notin> {MarkX, MarkO}"
      by simp
    then have "handleClick s i = Inr ?s'" by (rule play)
    then show ?thesis by (intro exI [of _ ?s'])
  qed
  have und: "is_index i \<longrightarrow> at squares i = Undefined"
    using at_outside_index [OF out] by blast
  show ?thesis
    by (rule conjI [OF total conjI [OF und conjI [OF impI [OF noop] impI [OF play]]]])
qed

text \<open>
  The amended statement of C9 on a running game at the indices 10, -1 and
  \<open>2 ^ 32 - 1\<close>, on a won game at index 10, and at index -1 on a board that already
  carries a mark there.
\<close>

theorem handleClick_out_of_range_witness:
  "currentSquares game3 = Some (history game3 ! 2)
   \<and> length (elems (history game3 ! 2)) = boardSize game3 * boardSize game3
   \<and> calculateWinner (Some (history game3 ! 2)) (boardSize game3) = None
   \<and> handleClick game3 10
       = Inr (game3\<lparr>history := history game3
                @ [array [MarkX, Null, Null, Null, MarkO, Null, Null, Null, Null,
                          Undefined, MarkX]],
              currentMove := 3\<rparr>)
   \<and> handleClick game3 (- 1)
       = Inr (game3\<lparr>history := history game3
                @ [\<lparr>elems = [MarkX, Null, Null, Null, MarkO, Null, Null, Null, Null],
                    props = [(- 1, MarkX)]\<rparr>],
              currentMove := 3\<rparr>)
   \<and> handleClick game3 4294967295
       = Inr (game3\<lparr>history := history game3
                @ [\<lparr>elems = [MarkX, Null, Null, Null, MarkO, Null, Null, Null, Null],
                    props = [(4294967295, MarkX)]\<rparr>],
              currentMove := 3\<rparr>)
   \<and> handleClick game6 10 = Inr game6
   \<and> at (history game4p ! 3) (- 1) = MarkX
   \<and> handleClick game4p (- 1) = Inr game4p"
proof -
  have c3: "currentSquares game3 = Some (history game3 ! 2)" by code_simp
  have n3: "length (elems (history game3 ! 2)) = boardSize game3 * boardSize game3"
    by code_simp
  have w3: "calculateWinner (Some (history game3 ! 2)) (boardSize game3) = None" by code_simp
  have c6: "currentSquares game6 = Some (history game6 ! 5)" by code_simp
  have n6: "length (elems (history game6 ! 5)) = boardSize game6 * boardSize game6"
    by code_simp
  have w6: "calculateWinner (Some (history game6 ! 5)) (boardSize game6) \<noteq> None" by code_simp
  have c4: "currentSquares game4p = Some (history game4p ! 3)" by code_simp
  have n4: "length (elems (history game4p ! 3)) = boardSize game4p * boardSize game4p"
    by code_simp
  have m4: "at (history game4p ! 3) (- 1) = MarkX" by code_simp
  have m4': "at (history game4p ! 3) (- 1) \<in> {MarkX, MarkO}" by code_simp
  have i10: "(10::int) < 0 \<or> int (boardSize game3 * boardSize game3) \<le> 10" by code_simp
  have im: "(- 1::int) < 0 \<or> int (boardSize game3 * boardSize game3) \<le> - 1" by simp
  have ib: "(4294967295::int) < 0 \<or> int (boardSize game3 * boardSize game3) \<le> 4294967295"
    by code_simp
  have j10: "(10::int) < 0 \<or> int (boardSize game6 * boardSize game6) \<le> 10" by code_simp
  have jm: "(- 1::int) < 0 \<or> int (boardSize game4p * boardSize game4p) \<le> - 1" by simp
  have f10: "calculateWinner (Some (history game3 ! 2)) (boardSize game3) = None
              \<and> at (history game3 ! 2) 10 \<notin> {MarkX, MarkO}" by code_simp
  have fm: "calculateWinner (Some (history game3 ! 2)) (boardSize game3) = None
              \<and> at (history game3 ! 2) (- 1) \<notin> {MarkX, MarkO}" by code_simp
  have ub: "at (history game3 ! 2) 4294967295 = Undefined"
    by (simp add: at_def game3_def array_def is_index_def)
  have fb: "calculateWinner (Some (history game3 ! 2)) (boardSize game3) = None
              \<and> at (history game3 ! 2) 4294967295 \<notin> {MarkX, MarkO}"
    using w3 ub by simp
  have nb: "\<not> is_index 4294967295" by code_simp
  have v10: "take (currentMove game3 + 1) (history game3)
              @ [if is_index 10
                 then array (elems (history game3 ! 2)
                        @ replicate (nat 10 - boardSize game3 * boardSize game3) Undefined
                        @ [mover game3])
                 else \<lparr>elems = elems (history game3 ! 2), props = [(10, mover game3)]\<rparr>]
           = history game3
              @ [array [MarkX, Null, Null, Null, MarkO, Null, Null, Null, Null,
                        Undefined, MarkX]]"
    by code_simp
  have vm: "take (currentMove game3 + 1) (history game3)
              @ [if is_index (- 1)
                 then array (elems (history game3 ! 2)
                        @ replicate (nat (- 1) - boardSize game3 * boardSize game3) Undefined
                        @ [mover game3])
                 else \<lparr>elems = elems (history game3 ! 2), props = [(- 1, mover game3)]\<rparr>]
           = history game3
              @ [\<lparr>elems = [MarkX, Null, Null, Null, MarkO, Null, Null, Null, Null],
                  props = [(- 1, MarkX)]\<rparr>]"
    by code_simp
  have vb: "take (currentMove game3 + 1) (history game3)
              @ [\<lparr>elems = elems (history game3 ! 2), props = [(4294967295, mover game3)]\<rparr>]
           = history game3
              @ [\<lparr>elems = [MarkX, Null, Null, Null, MarkO, Null, Null, Null, Null],
                  props = [(4294967295, MarkX)]\<rparr>]"
    by code_simp
  have m: "currentMove game3 + 1 = 3" by code_simp
  note a10 = handleClick_out_of_range [OF c3 n3 i10, THEN conjunct2, THEN conjunct2,
      THEN conjunct2, rule_format, OF f10]
  note am = handleClick_out_of_range [OF c3 n3 im, THEN conjunct2, THEN conjunct2,
      THEN conjunct2, rule_format, OF fm]
  note ab = handleClick_out_of_range [OF c3 n3 ib, THEN conjunct2, THEN conjunct2,
      THEN conjunct2, rule_format, OF fb]
  note b10 = a10 [unfolded v10]
  note bm = am [unfolded vm]
  note ab' = ab [unfolded if_not_P [OF nb]]
  note bb = ab' [unfolded vb]
  note r10 = b10 [unfolded m]
  note rm = bm [unfolded m]
  note rb = bb [unfolded m]
  have r6: "handleClick game6 10 = Inr game6"
    by (rule handleClick_out_of_range [OF c6 n6 j10, THEN conjunct2, THEN conjunct2,
          THEN conjunct1, rule_format, OF disjI1 [OF w6]])
  have r4: "handleClick game4p (- 1) = Inr game4p"
    by (rule handleClick_out_of_range [OF c4 n4 jm, THEN conjunct2, THEN conjunct2,
          THEN conjunct1, rule_format, OF disjI2 [OF m4']])
  from c3 n3 w3 r10 rm rb r6 m4 r4 show ?thesis by (intro conjI)
qed

section \<open>Scores\<close>

text \<open>
  Claim C6. \<open>handlePlay\<close> leaves both counters unchanged when the board it records
  has no winner, a draw in particular, and when that board has a winner it raises
  exactly the winner's counter by 1 and leaves the other unchanged. For every click that
  returns, \<open>scoreX + scoreO\<close> increases by at most 1, and either the click did nothing
  or it recorded a new board through \<open>handlePlay\<close>, with the counters decided by the
  winner of that board as just said. And a click on a free cell of a board without a
  winner that produces a board with a winner is counted: the winner's counter goes up
  by 1.
\<close>

theorem play_score_update:
  "(calculateWinner (Some b) (boardSize s) = None \<longrightarrow>
      scoreX (handlePlay s b) = scoreX s \<and> scoreO (handlePlay s b) = scoreO s)
   \<and> (\<forall>w. calculateWinner (Some b) (boardSize s) = Some w \<longrightarrow>
         (player w = MarkX \<and> scoreX (handlePlay s b) = scoreX s + 1
            \<and> scoreO (handlePlay s b) = scoreO s)
         \<or> (player w = MarkO \<and> scoreO (handlePlay s b) = scoreO s + 1
            \<and> scoreX (handlePlay s b) = scoreX s))
   \<and> (handleClick s i = Inr s' \<longrightarrow>
         scoreX s' + scoreO s' \<le> scoreX s + scoreO s + 1
         \<and> (s' = s
            \<or> (\<exists>squares nextSquares.
                  currentSquares s = Some squares
                  \<and> nextSquares = put (slice squares) i (mover s)
                  \<and> s' = handlePlay s nextSquares
                  \<and> currentSquares s' = Some nextSquares
                  \<and> ((calculateWinner (Some nextSquares) (boardSize s) = None
                        \<and> scoreX s' = scoreX s \<and> scoreO s' = scoreO s)
                     \<or> (\<exists>w. calculateWinner (Some nextSquares) (boardSize s) = Some w
                        \<and> player w = MarkX
                        \<and> scoreX s' = scoreX s + 1 \<and> scoreO s' = scoreO s)
                     \<or> (\<exists>w. calculateWinner (Some nextSquares) (boardSize s) = Some w
                        \<and> player w = MarkO
                        \<and> scoreX s' = scoreX s \<and> scoreO s' = scoreO s + 1)))))
   \<and> (currentSquares s = Some squares
        \<and> calculateWinner (Some squares) (boardSize s) = None
        \<and> at squares i \<notin> {MarkX, MarkO}
        \<and> calculateWinner (Some (put (slice squares) i (mover s))) (boardSize s) = Some w
        \<longrightarrow>
         (\<exists>s'. handleClick s i = Inr s'
            \<and> ((player w = MarkX \<and> scoreX s' = scoreX s + 1 \<and> scoreO s' = scoreO s)
               \<or> (player w = MarkO \<and> scoreO s' = scoreO s + 1 \<and> scoreX s' = scoreX s))))"
proof -
  have none: "scoreX (handlePlay s b) = scoreX s \<and> scoreO (handlePlay s b) = scoreO s"
    if "calculateWinner (Some b) (boardSize s) = None" for b
    using that by (simp add: handlePlay_scores_None)
  have some: "(player w = MarkX \<and> scoreX (handlePlay s b) = scoreX s + 1
            \<and> scoreO (handlePlay s b) = scoreO s)
         \<or> (player w = MarkO \<and> scoreO (handlePlay s b) = scoreO s + 1
            \<and> scoreX (handlePlay s b) = scoreX s)"
    if w: "calculateWinner (Some b) (boardSize s) = Some w" for b w
  proof -
    have "player w \<in> {MarkX, MarkO}" using w by (rule calculateWinner_player)
    then consider "player w = MarkX" | "player w = MarkO" by blast
    then show ?thesis
    proof cases
      case 1
      with w show ?thesis by (simp add: handlePlay_scores_X)
    next
      case 2
      with w show ?thesis by (simp add: handlePlay_scores_O)
    qed
  qed
  have click: "scoreX s' + scoreO s' \<le> scoreX s + scoreO s + 1
         \<and> (s' = s
            \<or> (\<exists>squares nextSquares.
                  currentSquares s = Some squares
                  \<and> nextSquares = put (slice squares) i (mover s)
                  \<and> s' = handlePlay s nextSquares
                  \<and> currentSquares s' = Some nextSquares
                  \<and> ((calculateWinner (Some nextSquares) (boardSize s) = None
                        \<and> scoreX s' = scoreX s \<and> scoreO s' = scoreO s)
                     \<or> (\<exists>w. calculateWinner (Some nextSquares) (boardSize s) = Some w
                        \<and> player w = MarkX
                        \<and> scoreX s' = scoreX s + 1 \<and> scoreO s' = scoreO s)
                     \<or> (\<exists>w. calculateWinner (Some nextSquares) (boardSize s) = Some w
                        \<and> player w = MarkO
                        \<and> scoreX s' = scoreX s \<and> scoreO s' = scoreO s + 1))))"
    if hc: "handleClick s i = Inr s'"
    using hc
  proof (cases rule: handleClick_cases)
    case noop
    then show ?thesis by simp
  next
    case (play squares)
    let ?b = "put (slice squares) i (mover s)"
    have cur: "currentSquares s' = Some ?b"
      unfolding play(3) by (rule handlePlay_currentSquares)
    have tri: "(calculateWinner (Some ?b) (boardSize s) = None
              \<and> scoreX s' = scoreX s \<and> scoreO s' = scoreO s)
          \<or> (\<exists>w. calculateWinner (Some ?b) (boardSize s) = Some w \<and> player w = MarkX
              \<and> scoreX s' = scoreX s + 1 \<and> scoreO s' = scoreO s)
          \<or> (\<exists>w. calculateWinner (Some ?b) (boardSize s) = Some w \<and> player w = MarkO
              \<and> scoreX s' = scoreX s \<and> scoreO s' = scoreO s + 1)"
      unfolding play(3) by (rule handlePlay_scores)
    then have le: "scoreX s' + scoreO s' \<le> scoreX s + scoreO s + 1"
      by (elim disjE exE conjE) simp_all
    from play(1,3) cur tri have "\<exists>squares nextSquares.
                  currentSquares s = Some squares
                  \<and> nextSquares = put (slice squares) i (mover s)
                  \<and> s' = handlePlay s nextSquares
                  \<and> currentSquares s' = Some nextSquares
                  \<and> ((calculateWinner (Some nextSquares) (boardSize s) = None
                        \<and> scoreX s' = scoreX s \<and> scoreO s' = scoreO s)
                     \<or> (\<exists>w. calculateWinner (Some nextSquares) (boardSize s) = Some w
                        \<and> player w = MarkX
                        \<and> scoreX s' = scoreX s + 1 \<and> scoreO s' = scoreO s)
                     \<or> (\<exists>w. calculateWinner (Some nextSquares) (boardSize s) = Some w
                        \<and> player w = MarkO
                        \<and> scoreX s' = scoreX s \<and> scoreO s' = scoreO s + 1))"
      by (intro exI [of _ squares] exI [of _ ?b] conjI refl)
    with le show ?thesis by blast
  qed
  have win: "\<exists>s'. handleClick s i = Inr s'
            \<and> ((player w = MarkX \<and> scoreX s' = scoreX s + 1 \<and> scoreO s' = scoreO s)
               \<or> (player w = MarkO \<and> scoreO s' = scoreO s + 1 \<and> scoreX s' = scoreX s))"
    if a: "currentSquares s = Some squares
        \<and> calculateWinner (Some squares) (boardSize s) = None
        \<and> at squares i \<notin> {MarkX, MarkO}
        \<and> calculateWinner (Some (put (slice squares) i (mover s))) (boardSize s) = Some w"
  proof -
    let ?b = "put (slice squares) i (mover s)"
    from a have "handleClick s i = Inr (handlePlay s ?b)"
      by (intro handleClick_play) simp_all
    moreover from a have "(player w = MarkX \<and> scoreX (handlePlay s ?b) = scoreX s + 1
            \<and> scoreO (handlePlay s ?b) = scoreO s)
         \<or> (player w = MarkO \<and> scoreO (handlePlay s ?b) = scoreO s + 1
            \<and> scoreX (handlePlay s ?b) = scoreX s)"
      by (intro some) simp
    ultimately show ?thesis by (intro exI [of _ "handlePlay s ?b"] conjI)
  qed
  have A: "calculateWinner (Some b) (boardSize s) = None \<longrightarrow>
      scoreX (handlePlay s b) = scoreX s \<and> scoreO (handlePlay s b) = scoreO s"
    by (rule impI) (rule none)
  have B: "\<forall>w. calculateWinner (Some b) (boardSize s) = Some w \<longrightarrow>
         (player w = MarkX \<and> scoreX (handlePlay s b) = scoreX s + 1
            \<and> scoreO (handlePlay s b) = scoreO s)
         \<or> (player w = MarkO \<and> scoreO (handlePlay s b) = scoreO s + 1
            \<and> scoreX (handlePlay s b) = scoreX s)"
    by (intro allI impI) (rule some)
  note C = impI [OF click]
  note D = impI [OF win]
  show ?thesis
    by (rule conjI [OF A conjI [OF B conjI [OF C D]]])
qed

text \<open>
  The statement of C6 at the full board of a drawn game, at the winning move of X and
  at the winning move of O.
\<close>

theorem play_score_update_witness:
  "calculateWinner (Some (history game9 ! 9)) (boardSize game9) = None
   \<and> list_all (\<lambda>val. val \<noteq> Null) (elems (history game9 ! 9))
   \<and> scoreX (handlePlay game9 (history game9 ! 9)) = scoreX game9
   \<and> scoreO (handlePlay game9 (history game9 ! 9)) = scoreO game9
   \<and> calculateWinner (Some (history game6 ! 5)) (boardSize game5)
        = Some \<lparr>player = MarkX, line = [0, 1, 2]\<rparr>
   \<and> scoreX (handlePlay game5 (history game6 ! 5)) = scoreX game5 + 1
   \<and> scoreO (handlePlay game5 (history game6 ! 5)) = scoreO game5
   \<and> handleClick game5 2 = Inr game6
   \<and> scoreX game6 + scoreO game6 \<le> scoreX game5 + scoreO game5 + 1
   \<and> calculateWinner (Some (put (slice (history game5o ! 5)) 5 (mover game5o))) (boardSize game5o)
        = Some \<lparr>player = MarkO, line = [3, 4, 5]\<rparr>
   \<and> (\<exists>s'. handleClick game5o 5 = Inr s'
         \<and> scoreO s' = scoreO game5o + 1 \<and> scoreX s' = scoreX game5o)"
proof -
  have n: "calculateWinner (Some (history game9 ! 9)) (boardSize game9) = None" by code_simp
  have f: "list_all (\<lambda>val. val \<noteq> Null) (elems (history game9 ! 9))" by code_simp
  have wx: "calculateWinner (Some (history game6 ! 5)) (boardSize game5)
        = Some \<lparr>player = MarkX, line = [0, 1, 2]\<rparr>" by code_simp
  have c: "handleClick game5 2 = Inr game6" by code_simp
  have co: "currentSquares game5o = Some (history game5o ! 5)
        \<and> calculateWinner (Some (history game5o ! 5)) (boardSize game5o) = None
        \<and> at (history game5o ! 5) 5 \<notin> {MarkX, MarkO}
        \<and> calculateWinner (Some (put (slice (history game5o ! 5)) 5 (mover game5o)))
             (boardSize game5o)
           = Some \<lparr>player = MarkO, line = [3, 4, 5]\<rparr>" by code_simp
  note t9 = play_score_update [of "history game9 ! 9" game9 0 game9 "history game9 ! 9"
      "\<lparr>player = MarkX, line = []\<rparr>"]
  note d = t9 [THEN conjunct1, rule_format, OF n]
  note t5 = play_score_update [of "history game6 ! 5" game5 2 game6 "history game5 ! 4"
      "\<lparr>player = MarkX, line = []\<rparr>"]
  note x = t5 [THEN conjunct2, THEN conjunct1, rule_format, OF wx]
  note k = t5 [THEN conjunct2, THEN conjunct2, THEN conjunct1, rule_format, OF c]
  note to = play_score_update [of "history game5o ! 5" game5o 5 game5o "history game5o ! 5"
      "\<lparr>player = MarkO, line = [3, 4, 5]\<rparr>"]
  note o = to [THEN conjunct2, THEN conjunct2, THEN conjunct2, rule_format, OF co]
  have x': "scoreX (handlePlay game5 (history game6 ! 5)) = scoreX game5 + 1
            \<and> scoreO (handlePlay game5 (history game6 ! 5)) = scoreO game5"
    using x by simp
  have k': "scoreX game6 + scoreO game6 \<le> scoreX game5 + scoreO game5 + 1"
    using k by (rule conjunct1)
  have o': "\<exists>s'. handleClick game5o 5 = Inr s'
         \<and> scoreO s' = scoreO game5o + 1 \<and> scoreX s' = scoreX game5o"
    using o by simp
  from n f d wx x' c k' co o' show ?thesis by (intro conjI) simp_all
qed

section \<open>Time travel and restart\<close>

text \<open>
  Claim C5, as stated: for every move index outside \<open>0 \<le> moveIndex < length history\<close>,
  \<open>jumpTo\<close> fails with an InvalidIndex condition and leaves all state unchanged. It fails
  at index 10 on a history of length 3: \<open>jumpTo\<close> has no range check and sets
  \<open>currentMove\<close> to 10.
\<close>

theorem jumpTo_out_of_range_counterexample:
  "length (history game3) = 3 \<and> currentMove game3 = 2
   \<and> currentMove (jumpTo game3 10) = 10 \<and> jumpTo game3 10 \<noteq> game3"
  by code_simp

text \<open>
  Claim C5, amended. For every natural move index, in range or not, \<open>jumpTo\<close> raises no error,
  sets \<open>currentMove\<close> to that index and leaves the history, the scores, the board size
  and the screen unchanged. When the index is at or beyond the length of the history,
  the active board is then \<open>undefined\<close>, and the next status read or click raises a
  \<open>TypeError\<close>.
\<close>

theorem jumpTo_sets_currentMove:
  "currentMove (jumpTo s move) = move
   \<and> history (jumpTo s move) = history s
   \<and> scoreX (jumpTo s move) = scoreX s
   \<and> scoreO (jumpTo s move) = scoreO s
   \<and> boardSize (jumpTo s move) = boardSize s
   \<and> screen (jumpTo s move) = screen s
   \<and> (length (history s) \<le> move \<longrightarrow>
        currentSquares (jumpTo s move) = None
        \<and> status (jumpTo s move) = Inl TypeError
        \<and> handleClick (jumpTo s move) i = Inl TypeError)"
  by (simp add: jumpTo_def currentSquares_def status_def handleClick_def calculateWinner_def)

text \<open>
  The amended statement of C5 at index 10 on a history of length 3.
\<close>

theorem jumpTo_sets_currentMove_witness:
  "length (history game3) \<le> 10
   \<and> currentMove (jumpTo game3 10) = 10
   \<and> history (jumpTo game3 10) = history game3
   \<and> currentSquares (jumpTo game3 10) = None
   \<and> status (jumpTo game3 10) = Inl TypeError
   \<and> handleClick (jumpTo game3 10) 0 = Inl TypeError"
proof -
  have l: "length (history game3) \<le> 10" by code_simp
  from jumpTo_sets_currentMove [of game3 10 0] l show ?thesis by simp
qed

text \<open>
  Claim C7. \<open>restartGame\<close> resets the history to a single empty \<open>N \<times> N\<close> board and
  \<open>currentMove\<close> to 0 and changes nothing else: \<open>scoreX\<close>, \<open>scoreO\<close> and the board
  size (and the screen) keep their values.
\<close>

theorem restartGame_resets_board_only:
  "history (restartGame s) = [array (replicate (boardSize s * boardSize s) Null)]
   \<and> currentMove (restartGame s) = 0
   \<and> scoreX (restartGame s) = scoreX s
   \<and> scoreO (restartGame s) = scoreO s
   \<and> boardSize (restartGame s) = boardSize s
   \<and> screen (restartGame s) = screen s"
  by (simp add: restartGame_def)

text \<open>
  The statement of C7 at a game that X has won.
\<close>

theorem restartGame_resets_board_only_witness:
  "history (restartGame game6) = [array (replicate 9 Null)]
   \<and> currentMove (restartGame game6) = 0
   \<and> scoreX (restartGame game6) = 1
   \<and> scoreO (restartGame game6) = 0
   \<and> boardSize (restartGame game6) = 3"
proof -
  have "boardSize game6 = 3" "scoreX game6 = 1" "scoreO game6 = 0"
    by (simp_all add: game6_def)
  with restartGame_resets_board_only [of game6] show ?thesis by simp
qed

section \<open>Status\<close>

text \<open>
  Claim C8. With an active board, the status is derived from it: it names the winner
  when the board has a complete line, it is a draw when no line is complete and no
  cell is \<open>null\<close>, and otherwise it announces the next player, X exactly when
  \<open>currentMove\<close> is even and O when it is odd.
\<close>

theorem status_derivation:
  assumes "currentSquares s = Some squares"
  shows "((\<exists>ln \<in> set (generateWinningLines (boardSize s)). complete_line squares ln) \<longrightarrow>
            (\<exists>w. calculateWinner (Some squares) (boardSize s) = Some w
               \<and> player w \<in> {MarkX, MarkO}
               \<and> status s = Inr (''Winner: '' @ to_string (player w))))
    \<and> ((\<forall>ln \<in> set (generateWinningLines (boardSize s)). \<not> complete_line squares ln)
          \<and> (\<forall>val \<in> set (elems squares). val \<noteq> Null) \<longrightarrow>
            status s = Inr ''Draw!'')
    \<and> ((\<forall>ln \<in> set (generateWinningLines (boardSize s)). \<not> complete_line squares ln)
          \<and> (\<exists>val \<in> set (elems squares). val = Null) \<longrightarrow>
            status s = Inr (if even (currentMove s) then ''Next: X'' else ''Next: O''))"
proof (intro conjI impI)
  assume "\<exists>ln \<in> set (generateWinningLines (boardSize s)). complete_line squares ln"
  then have "calculateWinner (Some squares) (boardSize s) \<noteq> None"
    by (simp add: calculateWinner_None_iff generateWinningLines_spec)
  then obtain w where w: "calculateWinner (Some squares) (boardSize s) = Some w" by blast
  moreover have "player w \<in> {MarkX, MarkO}" using w by (rule calculateWinner_player)
  moreover have "status s = Inr (''Winner: '' @ to_string (player w))"
    using w assms by (intro status_winner) simp
  ultimately show "\<exists>w. calculateWinner (Some squares) (boardSize s) = Some w
               \<and> player w \<in> {MarkX, MarkO}
               \<and> status s = Inr (''Winner: '' @ to_string (player w))"
    by blast
next
  assume a: "(\<forall>ln \<in> set (generateWinningLines (boardSize s)). \<not> complete_line squares ln)
          \<and> (\<forall>val \<in> set (elems squares). val \<noteq> Null)"
  then have "calculateWinner (Some squares) (boardSize s) = None"
    by (simp add: calculateWinner_None_iff generateWinningLines_spec)
  with assms a show "status s = Inr ''Draw!''"
    by (simp add: status_no_winner list_all_iff)
next
  assume a: "(\<forall>ln \<in> set (generateWinningLines (boardSize s)). \<not> complete_line squares ln)
          \<and> (\<exists>val \<in> set (elems squares). val = Null)"
  then have "calculateWinner (Some squares) (boardSize s) = None"
    by (simp add: calculateWinner_None_iff generateWinningLines_spec)
  with assms a show "status s = Inr (if even (currentMove s) then ''Next: X'' else ''Next: O'')"
    by (auto simp: status_no_winner list_all_iff xIsNext_def even_iff_mod_2_eq_zero)
qed

text \<open>
  The statement of C8 at a won game, a drawn game and a running game.
\<close>

theorem status_derivation_witness:
  "status game6 = Inr ''Winner: X''
   \<and> status game9 = Inr ''Draw!''
   \<and> status game5 = Inr ''Next: X''
   \<and> status game1 = Inr ''Next: X''"
proof -
  have c6: "currentSquares game6 = Some (history game6 ! 5)" by code_simp
  have c9: "currentSquares game9 = Some (history game9 ! 9)" by code_simp
  have c5: "currentSquares game5 = Some (history game5 ! 4)" by code_simp
  have l6: "\<exists>ln \<in> set (generateWinningLines (boardSize game6)).
              complete_line (history game6 ! 5) ln" by code_simp
  have l9: "(\<forall>ln \<in> set (generateWinningLines (boardSize game9)).
               \<not> complete_line (history game9 ! 9) ln)
            \<and> (\<forall>val \<in> set (elems (history game9 ! 9)). val \<noteq> Null)" by code_simp
  have l5: "(\<forall>ln \<in> set (generateWinningLines (boardSize game5)).
               \<not> complete_line (history game5 ! 4) ln)
            \<and> (\<exists>val \<in> set (elems (history game5 ! 4)). val = Null)" by code_simp
  have e5: "even (currentMove game5)" by code_simp
  have w6: "calculateWinner (Some (history game6 ! 5)) (boardSize game6)
              = Some \<lparr>player = MarkX, line = [0, 1, 2]\<rparr>" by code_simp
  from status_derivation [OF c6, THEN conjunct1, rule_format, OF l6] w6
  have "status game6 = Inr ''Winner: X''" by auto
  moreover from status_derivation [OF c9, THEN conjunct2, THEN conjunct1, rule_format, OF l9]
  have "status game9 = Inr ''Draw!''" .
  moreover from status_derivation [OF c5, THEN conjunct2, THEN conjunct2, rule_format, OF l5] e5
  have "status game5 = Inr ''Next: X''" by simp
  moreover have "status game1 = Inr ''Next: X''" by code_simp
  ultimately show ?thesis by simp
qed

section \<open>The history is never empty\<close>

text \<open>
  Claim C10. \<open>handleStart\<close> and \<open>restartGame\<close> each set the history to a one-element
  list holding the empty board; \<open>handlePlay\<close> keeps index 0 and appends one board, so
  that its history is not empty; right after \<open>handlePlay\<close>, \<open>currentMove\<close> is the last
  index of the history and the active board is the board just recorded; and in every
  reachable state the history is not empty.
\<close>

theorem history_never_empty:
  "history (handleStart s) = [array (replicate (boardSize s * boardSize s) Null)]
   \<and> history (restartGame s) = [array (replicate (boardSize s * boardSize s) Null)]
   \<and> history (handlePlay s b) \<noteq> []
   \<and> (history s \<noteq> [] \<longrightarrow> history (handlePlay s b) ! 0 = history s ! 0)
   \<and> length (history (handlePlay s b)) = min (currentMove s + 1) (length (history s)) + 1
   \<and> last (history (handlePlay s b)) = b
   \<and> currentMove (handlePlay s b) = length (history (handlePlay s b)) - 1
   \<and> currentSquares (handlePlay s b) = Some b
   \<and> (reachable s \<longrightarrow> history s \<noteq> [])"
proof -
  have "history s \<noteq> [] \<longrightarrow> history (handlePlay s b) ! 0 = history s ! 0"
    by (cases "history s") (simp_all add: handlePlay_history)
  moreover have "length (history (handlePlay s b))
                   = min (currentMove s + 1) (length (history s)) + 1"
    by (simp add: handlePlay_history min.commute)
  ultimately show ?thesis
    by (simp add: handleStart_def restartGame_def handlePlay_history handlePlay_currentMove
        handlePlay_currentSquares reachable_history_nonempty del: length_take)
qed

text \<open>
  The statement of C10 at the state after the start of the first game.
\<close>

theorem history_never_empty_witness:
  "reachable (handleStart initial)
   \<and> history (handleStart initial) = [array (replicate 9 Null)]
   \<and> history (handleStart initial) \<noteq> []
   \<and> currentSquares (handlePlay game5 (history game6 ! 5)) = Some (history game6 ! 5)"
proof -
  have m: "screen initial = Menu" "boardSize initial = 3" by (simp_all add: initial_def)
  have r: "reachable (handleStart initial)"
    using m(1) by (intro reachable.start reachable.init)
  note t = history_never_empty [of "handleStart initial" "history game6 ! 5"]
  note u = history_never_empty [of "initial" "history game6 ! 5"]
  note v = history_never_empty [of "game5" "history game6 ! 5"]
  from t r have "history (handleStart initial) \<noteq> []" by (elim conjE impE) 
  moreover from u m have "history (handleStart initial) = [array (replicate 9 Null)]" by simp
  moreover from v have "currentSquares (handlePlay game5 (history game6 ! 5)) = Some (history game6 ! 5)"
    by (elim conjE)
  ultimately show ?thesis using r by simp
qed

end
